theory Spec2Isabelle
  imports Main
begin

section \<open>Python values, records and errors\<close>

text \<open>
  The module \<^verbatim>\<open>Table.py\<close> maps records, Python dicts of the form
  \<^verbatim>\<open>{"id": int, **fields, "subrecords": {table: [record]}}\<close> (the form the docstring of
  \<^verbatim>\<open>is_valid_record\<close> gives), to rows of an SQLite database. Every exception the
  source can raise is a constructor of \<open>error\<close>; a function that can raise returns
  \<open>error + 'a\<close> with \<open>Inl\<close> for the exception.

  \<open>Unmodelled\<close> is not a Python exception: the source splices values into the text
  of its SQL statements, and the model answers \<open>Unmodelled\<close> where that text is not
  the statement the source means to write (a double quote or a NUL inside a text value, a
  text that names a column, a float or bytes literal, an integer outside 64 bits), or where
  the database would have to read a value the model keeps unread. The database does run
  such a statement, and it can write any row: where a writing method answers
  \<open>Unmodelled\<close>, the store given with the answer is the store before the statement
  and says nothing of the store the run leaves. The theorems on the store after a write
  are stated for runs that return.
\<close>

datatype error =
    InvalidRecordError | TableNotFoundError | ValueError | TypeError | IndexError
  | KeyError | OperationalError | IntegrityError | RecursionError | Unmodelled

text \<open>A Python float is kept as its 64 bits, unread; bytes as a list of byte values.\<close>

datatype pyfloat = Float64 nat

datatype val = VInt int | VReal pyfloat | VText string | VBlob "nat list" | VNone

datatype pytype = PyInt | PyFloat | PyStr | PyBytes

text \<open>\<^verbatim>\<open>valid_types = {"INTEGER": int, "REAL": float, "TEXT": str, "BLOB": bytes}\<close>\<close>

definition valid_types :: "string \<Rightarrow> pytype option" where
  "valid_types ty =
     (if ty = ''INTEGER'' then Some PyInt
      else if ty = ''REAL'' then Some PyFloat
      else if ty = ''TEXT'' then Some PyStr
      else if ty = ''BLOB'' then Some PyBytes
      else None)"

fun isinstance :: "val \<Rightarrow> pytype \<Rightarrow> bool" where
  "isinstance (VInt i) PyInt = True"
| "isinstance (VReal x) PyFloat = True"
| "isinstance (VText s) PyStr = True"
| "isinstance (VBlob b) PyBytes = True"
| "isinstance v t = False"

text \<open>
  A record: the value under \<^verbatim>\<open>"id"\<close>, the field entries in the dict's order, and the
  dict under \<^verbatim>\<open>"subrecords"\<close> in its order. The keys of a Python dict are distinct.
\<close>

datatype pyrecord =
  Record (rec_id: int) (rec_fields: "(string \<times> val) list")
         (rec_subrecords: "(string \<times> pyrecord list) list")

definition reserved :: "string \<Rightarrow> bool" where
  "reserved k = (k = ''id'' \<or> k = ''subrecords'')"

text \<open>\<^verbatim>\<open>str.upper()\<close> and \<^verbatim>\<open>str.lower()\<close> on ASCII letters.\<close>

definition upper_char :: "char \<Rightarrow> char" where
  "upper_char c =
     (let n = (of_char c :: nat) in if 97 \<le> n \<and> n \<le> 122 then char_of (n - 32) else c)"

definition lower_char :: "char \<Rightarrow> char" where
  "lower_char c =
     (let n = (of_char c :: nat) in if 65 \<le> n \<and> n \<le> 90 then char_of (n + 32) else c)"

definition upper :: "string \<Rightarrow> string" where
  "upper s = map upper_char s"

definition lower :: "string \<Rightarrow> string" where
  "lower s = map lower_char s"

section \<open>The backing store\<close>

text \<open>
  The database file is a map from table names to tables. A table has its columns
  (name and declared type, as \<^verbatim>\<open>PRAGMA table_info\<close> lists them) and its rows in the
  order the store yields them. A row has its id, the values of its columns that are not
  NULL (\<open>row_val\<close> reads a column, NULL is \<open>VNone\<close>) and the JSON text of the \<^verbatim>\<open>subrecords\<close> column, kept as the list of its
  \<^verbatim>\<open>"table": [ids]\<close> entries in the order they are written.

  Table and column names are taken as plain SQL identifiers and compared as written.
\<close>

type_synonym manifest = "(string \<times> int list) list"

datatype row = Row (row_id: int) (row_vals: "(string \<times> val) list") (row_manifest: manifest)

definition row_val :: "row \<Rightarrow> string \<Rightarrow> val" where
  "row_val r c = (case map_of (row_vals r) c of None \<Rightarrow> VNone | Some v \<Rightarrow> v)"

datatype tbl = Tbl (tbl_cols: "(string \<times> string) list") (tbl_rows: "row list")

type_synonym db = "string \<Rightarrow> tbl option"

text \<open>\<^verbatim>\<open>PRAGMA table_info(name)\<close>: no rows for a table that does not exist.\<close>

definition table_info :: "db \<Rightarrow> string \<Rightarrow> (string \<times> string) list" where
  "table_info d name = (case d name of None \<Rightarrow> [] | Some t \<Rightarrow> tbl_cols t)"

text \<open>\<^verbatim>\<open>CREATE TABLE name (cols)\<close>: refused when the table exists or a column name
  repeats (SQLite compares column names without case).\<close>

definition sql_create_table :: "db \<Rightarrow> string \<Rightarrow> (string \<times> string) list \<Rightarrow> error + db" where
  "sql_create_table d name cs =
     (if d name \<noteq> None \<or> \<not> distinct (map (lower \<circ> fst) cs) then Inl OperationalError
      else Inr (d(name \<mapsto> Tbl cs [])))"

text \<open>\<^verbatim>\<open>SELECT ... FROM name WHERE id = i\<close> with \<^verbatim>\<open>fetchone()\<close>: the first row of
  that id, \<open>None\<close> when there is none.\<close>

definition find_row :: "row list \<Rightarrow> int \<Rightarrow> row option" where
  "find_row rs i = find (\<lambda>r. row_id r = i) rs"

definition has_column :: "tbl \<Rightarrow> string \<Rightarrow> bool" where
  "has_column t c = (c \<in> set (map fst (tbl_cols t)))"

text \<open>
  \<^verbatim>\<open>"SELECT id, " + ", ".join(fields) + ", subrecords FROM " + name\<close>: with no field
  the text is \<^verbatim>\<open>SELECT id, , subrecords FROM name\<close>, a syntax error; a missing table or
  column is an error too. The result is the table read.
\<close>

definition sql_select_fields :: "db \<Rightarrow> string \<Rightarrow> string list \<Rightarrow> error + tbl" where
  "sql_select_fields d name fs =
     (case d name of
        None \<Rightarrow> Inl OperationalError
      | Some t \<Rightarrow>
          if fs = [] \<or> \<not> (has_column t ''id'' \<and> has_column t ''subrecords''
                           \<and> list_all (has_column t) fs)
          then Inl OperationalError
          else Inr t)"

text \<open>\<^verbatim>\<open>SELECT id FROM name WHERE id = i\<close> and \<^verbatim>\<open>SELECT subrecords FROM name WHERE id = i\<close>.\<close>

definition sql_select_id :: "db \<Rightarrow> string \<Rightarrow> int \<Rightarrow> error + row option" where
  "sql_select_id d name i =
     (case d name of
        None \<Rightarrow> Inl OperationalError
      | Some t \<Rightarrow> Inr (find_row (tbl_rows t) i))"

text \<open>\<^verbatim>\<open>SELECT MAX(id) FROM name\<close>: one row always; its value is NULL on an empty table.\<close>

definition sql_max_id :: "db \<Rightarrow> string \<Rightarrow> error + int option" where
  "sql_max_id d name =
     (case d name of
        None \<Rightarrow> Inl OperationalError
      | Some t \<Rightarrow>
          (case map row_id (tbl_rows t) of
             [] \<Rightarrow> Inr None
           | i # is \<Rightarrow> Inr (Some (fold max is i))))"

text \<open>\<^verbatim>\<open>DELETE FROM name WHERE id = i\<close>.\<close>

definition sql_delete :: "db \<Rightarrow> string \<Rightarrow> int \<Rightarrow> error + db" where
  "sql_delete d name i =
     (case d name of
        None \<Rightarrow> Inl OperationalError
      | Some t \<Rightarrow> Inr (d(name \<mapsto> Tbl (tbl_cols t) (filter (\<lambda>r. row_id r \<noteq> i) (tbl_rows t)))))"


text \<open>
  What the store reads where the source splices a Python value into a statement
  (\<^verbatim>\<open>'"' + record[field] + '"'\<close> for a \<^verbatim>\<open>str\<close>, \<^verbatim>\<open>str(record[field])\<close> otherwise).
  A decimal integer within 64 bits is that integer; a double-quoted text is a string
  literal when it holds no double quote, no NUL character, and names no column (SQLite
  reads a double-quoted column name as the column). For every other value the text is not
  the literal meant: the statement still runs in the database, with a meaning the model
  does not give, and the answer is \<open>Unmodelled\<close>. A value is stored unchanged in a
  column of its own declared type.
\<close>

definition int64 :: "int \<Rightarrow> bool" where
  "int64 i = (- (2 ^ 63) < i \<and> i < 2 ^ 63)"

definition plain_text :: "tbl \<Rightarrow> string \<Rightarrow> bool" where
  "plain_text t s =
     (CHR 0x22 \<notin> set s \<and> CHR 0x00 \<notin> set s
      \<and> lower s \<notin> set (map (lower \<circ> fst) (tbl_cols t))
      \<and> lower s \<notin> {''rowid'', ''oid'', ''_rowid_''})"

fun sql_literal :: "tbl \<Rightarrow> string \<Rightarrow> val \<Rightarrow> bool" where
  "sql_literal t ty (VInt i) = (ty = ''INTEGER'' \<and> int64 i)"
| "sql_literal t ty (VText s) = (ty = ''TEXT'' \<and> plain_text t s)"
| "sql_literal t ty v = False"

definition sql_assignments :: "tbl \<Rightarrow> (string \<times> val) list \<Rightarrow> error option" where
  "sql_assignments t kvs =
     (if \<not> list_all (\<lambda>(k, v). case map_of (tbl_cols t) k of
                                  None \<Rightarrow> True | Some ty \<Rightarrow> sql_literal t ty v) kvs
      then Some Unmodelled
      else if \<not> list_all (\<lambda>(k, v). has_column t k) kvs then Some OperationalError
      else None)"

text \<open>The assignment \<^verbatim>\<open>d[k] = v\<close> on a dict kept in its order.\<close>

fun dict_set :: "'k \<Rightarrow> 'v \<Rightarrow> ('k \<times> 'v) list \<Rightarrow> ('k \<times> 'v) list" where
  "dict_set k v [] = [(k, v)]"
| "dict_set k v ((k', v') # kvs) =
     (if k = k' then (k, v) # kvs else (k', v') # dict_set k v kvs)"

definition set_vals :: "(string \<times> val) list \<Rightarrow> (string \<times> val) list \<Rightarrow> (string \<times> val) list" where
  "set_vals kvs old = foldl (\<lambda>d (k, v). dict_set k v d) old kvs"

text \<open>\<^verbatim>\<open>UPDATE name SET k1 = v1, ..., subrecords = m WHERE id = i\<close>.\<close>

definition sql_update :: "db \<Rightarrow> string \<Rightarrow> int \<Rightarrow> (string \<times> val) list \<Rightarrow> manifest \<Rightarrow> error + db" where
  "sql_update d name i kvs m =
     (case d name of
        None \<Rightarrow> Inl OperationalError
      | Some t \<Rightarrow>
          (case sql_assignments t kvs of
             Some e \<Rightarrow> Inl e
           | None \<Rightarrow>
               if \<not> (has_column t ''id'' \<and> has_column t ''subrecords'') then Inl OperationalError
               else Inr (d(name \<mapsto> Tbl (tbl_cols t)
                      (map (\<lambda>r. if row_id r = i then Row i (set_vals kvs (row_vals r)) m else r)
                           (tbl_rows t))))))"

text \<open>
  \<^verbatim>\<open>INSERT INTO name (id, k1, ..., subrecords) VALUES (i, v1, ..., m)\<close>: the columns not
  named are NULL, a second row of one id is refused (\<^verbatim>\<open>id INTEGER PRIMARY KEY\<close>), and
  the store yields its rows by ascending id.
\<close>

definition sql_insert :: "db \<Rightarrow> string \<Rightarrow> int \<Rightarrow> (string \<times> val) list \<Rightarrow> manifest \<Rightarrow> error + db" where
  "sql_insert d name i kvs m =
     (case d name of
        None \<Rightarrow> Inl OperationalError
      | Some t \<Rightarrow>
          (case sql_assignments t kvs of
             Some e \<Rightarrow> Inl e
           | None \<Rightarrow>
               if \<not> int64 i then Inl Unmodelled
               else if \<not> (has_column t ''id'' \<and> has_column t ''subrecords'') then Inl OperationalError
               else if find_row (tbl_rows t) i \<noteq> None then Inl IntegrityError
               else Inr (d(name \<mapsto> Tbl (tbl_cols t)
                      (insort_key row_id (Row i (set_vals kvs []) m) (tbl_rows t))))))"

text \<open>\<^verbatim>\<open>json.loads\<close> of the \<^verbatim>\<open>subrecords\<close> text: a dict, so a key written twice keeps
  its first place and its last value.\<close>

definition json_loads :: "manifest \<Rightarrow> manifest" where
  "json_loads m = foldl (\<lambda>d (k, v). dict_set k v d) [] m"

section \<open>The Table class\<close>

text \<open>
  A \<^verbatim>\<open>Table\<close> object: its attributes \<^verbatim>\<open>table_name\<close>, \<^verbatim>\<open>_fields\<close> (the dict
  \<open>fields_and_types\<close> from column name to type name, in its order), \<^verbatim>\<open>_subtables\<close> and \<^verbatim>\<open>_max_id\<close>. The
  database file of \<^verbatim>\<open>db_loc\<close> is the store passed to every function.
\<close>

record handle =
  table_name :: string
  fields_and_types :: "(string \<times> string) list"
  subtables :: "string list"
  max_id :: int

text \<open>\<^verbatim>\<open>Table._create_self\<close>: creates the table and its row 0 when
  \<^verbatim>\<open>PRAGMA table_info\<close> lists no column.\<close>

definition create_self :: "handle \<Rightarrow> db \<Rightarrow> error option \<times> db" where
  "create_self h d =
     (if table_info d (table_name h) = [] then
        (case sql_create_table d (table_name h)
                ((''id'', ''INTEGER'') # map (\<lambda>(f, ty). (f, upper ty)) (fields_and_types h)
                 @ [(''subrecords'', ''TEXT'')]) of
           Inl e \<Rightarrow> (Some e, d)
         | Inr d1 \<Rightarrow>
             (case sql_insert d1 (table_name h) 0 [] (map (\<lambda>s. (s, [])) (subtables h)) of
                Inl e \<Rightarrow> (Some e, d1)
              | Inr d2 \<Rightarrow> (None, d2)))
      else (None, d))"

text \<open>\<^verbatim>\<open>Table.__init__\<close>: every type name is upper-cased and must be one of
  \<^verbatim>\<open>valid_types\<close>.\<close>

definition Table_init ::
  "db \<Rightarrow> string \<Rightarrow> (string \<times> string) list \<Rightarrow> string list \<Rightarrow> (error + handle) \<times> db" where
  "Table_init d name fts subs =
     (let fs = map (\<lambda>(f, ty). (f, upper ty)) fts in
      if \<not> list_all (\<lambda>(f, ty). valid_types ty \<noteq> None) fs then (Inl ValueError, d)
      else
        let h = \<lparr>table_name = name, fields_and_types = fs, subtables = subs, max_id = 0\<rparr> in
        (case create_self h d of
           (Some e, d') \<Rightarrow> (Inl e, d')
         | (None, d') \<Rightarrow> (Inr h, d')))"

text \<open>\<^verbatim>\<open>Table.get_table\<close>; the database file is taken to exist.\<close>

definition get_table :: "db \<Rightarrow> string \<Rightarrow> (error + handle) \<times> db" where
  "get_table d name =
     (let info = table_info d name in
      if info = [] then (Inl TableNotFoundError, d)
      else
        let fs = filter (\<lambda>(c, ty). \<not> reserved c) info in
        (case sql_select_id d name 0 of
           Inl e \<Rightarrow> (Inl e, d)
         | Inr None \<Rightarrow> Table_init d name fs []
         | Inr (Some r) \<Rightarrow> Table_init d name fs (map fst (json_loads (row_manifest r)))))"

text \<open>
  \<^verbatim>\<open>Table.get_next_id\<close>. \<^verbatim>\<open>fetchone()\<close> on \<^verbatim>\<open>SELECT MAX(id)\<close> returns a
  one-column row on every table, so the branch \<^verbatim>\<open>table_max_id is None\<close> is never taken;
  on an empty table the comparison \<^verbatim>\<open>None < self._max_id\<close> raises \<^verbatim>\<open>TypeError\<close>.
\<close>

function get_next_id :: "handle \<Rightarrow> db \<Rightarrow> (error + int) \<times> handle" where
  "get_next_id h d =
     (case sql_max_id d (table_name h) of
        Inl e \<Rightarrow> (Inl e, h)
      | Inr None \<Rightarrow> (Inl TypeError, h)
      | Inr (Some table_max_id) \<Rightarrow>
          if table_max_id < max_id h then
            (case sql_select_id d (table_name h) (max_id h) of
               Inl e \<Rightarrow> (Inl e, h)
             | Inr None \<Rightarrow> (Inr (max_id h + 1), h\<lparr>max_id := max_id h + 1\<rparr>)
             | Inr (Some res) \<Rightarrow> get_next_id (h\<lparr>max_id := max_id h + 1\<rparr>) d)
          else (Inr (table_max_id + 1), h\<lparr>max_id := table_max_id + 1\<rparr>))"
  by pat_completeness auto

lemma fold_max_ge: "(x::int) \<le> fold max xs x \<and> (\<forall>y \<in> set xs. y \<le> fold max xs x)"
proof (induction xs arbitrary: x)
  case Nil
  show ?case by simp
next
  case (Cons a xs)
  have "max a x \<le> fold max xs (max a x)" and "\<forall>y \<in> set xs. y \<le> fold max xs (max a x)"
    using Cons.IH [of "max a x"] by simp_all
  then show ?case by auto
qed

lemma find_row_Some: "find_row rs i = Some r \<Longrightarrow> r \<in> set rs \<and> row_id r = i"
  unfolding find_row_def by (induction rs) (auto split: if_splits)

lemma sql_max_id_bound:
  assumes "sql_max_id d name = Inr (Some m)" and "sql_select_id d name i = Inr (Some r)"
  shows "i \<le> m"
proof -
  obtain t where t: "d name = Some t"
    using assms(1) by (auto simp: sql_max_id_def split: option.splits)
  from assms(2) t have "find_row (tbl_rows t) i = Some r"
    by (simp add: sql_select_id_def)
  then have mem: "i \<in> set (map row_id (tbl_rows t))"
    using find_row_Some by force
  from assms(1) t obtain j js where js: "map row_id (tbl_rows t) = j # js" and m: "m = fold max js j"
    by (auto simp: sql_max_id_def split: list.splits)
  from mem js have "i = j \<or> i \<in> set js" by simp
  then show ?thesis using fold_max_ge [of j js] m by auto
qed

termination get_next_id
proof (relation "measure (\<lambda>(h, d). 0)")
  show "wf (measure (\<lambda>(h, d). 0))" by simp
next
  fix h d x2 x2a x2b res
  assume "sql_max_id d (table_name h) = Inr x2" "x2 = Some x2a" "x2a < max_id h"
    "sql_select_id d (table_name h) (max_id h) = Inr x2b" "x2b = Some res"
  then have False using sql_max_id_bound [of d "table_name h" x2a "max_id h" res] by simp
  then show "((h\<lparr>max_id := max_id h + 1\<rparr>, d), (h, d)) \<in> measure (\<lambda>(h, d). 0)" ..
qed

declare get_next_id.simps [simp del]

text \<open>
  \<^verbatim>\<open>Table.is_valid_record\<close> returns \<^verbatim>\<open>(True, "Valid")\<close> or \<^verbatim>\<open>(False, message)\<close>;
  the message is kept as the check that failed. A record of the model has its \<^verbatim>\<open>"id"\<close>
  and \<^verbatim>\<open>"subrecords"\<close> keys by type, so the two checks for them never fail and
  \<^verbatim>\<open>len(record)\<close> is the number of fields plus two.
\<close>

datatype reason =
    WrongFieldCount | WrongSubtableCount | MissingField string | WrongType string
  | UndeclaredSubtable string

datatype verdict = Valid | Invalid reason

text \<open>\<^verbatim>\<open>field in record\<close> and \<^verbatim>\<open>isinstance(record[field], T)\<close> on the dict of a record:
  \<^verbatim>\<open>"id"\<close> holds an int and \<^verbatim>\<open>"subrecords"\<close> a dict.\<close>

definition rec_has :: "pyrecord \<Rightarrow> string \<Rightarrow> bool" where
  "rec_has r f = (reserved f \<or> f \<in> set (map fst (rec_fields r)))"

definition rec_isinstance :: "pyrecord \<Rightarrow> string \<Rightarrow> pytype \<Rightarrow> bool" where
  "rec_isinstance r f T =
     (if f = ''id'' then isinstance (VInt (rec_id r)) T
      else if f = ''subrecords'' then False
      else case map_of (rec_fields r) f of None \<Rightarrow> False | Some v \<Rightarrow> isinstance v T)"

text \<open>The loop \<^verbatim>\<open>for field in self._fields\<close> of \<^verbatim>\<open>is_valid_record\<close>;
  \<^verbatim>\<open>Table.valid_types[...]\<close> raises \<^verbatim>\<open>KeyError\<close> on a type name it does not hold.\<close>

fun check_fields :: "pyrecord \<Rightarrow> (string \<times> string) list \<Rightarrow> error + verdict" where
  "check_fields r [] = Inr Valid"
| "check_fields r ((f, ty) # fts) =
     (if \<not> rec_has r f then Inr (Invalid (MissingField f))
      else case valid_types ty of
             None \<Rightarrow> Inl KeyError
           | Some T \<Rightarrow>
               if \<not> rec_isinstance r f T then Inr (Invalid (WrongType f))
               else check_fields r fts)"

text \<open>
  \<^verbatim>\<open>Table.get_table\<close> runs the constructor, the one writer a reading method reaches; it
  finds the table there and leaves the store as it is (\<open>get_table_store\<close>, proved below),
  so the reading methods take the handle \<open>fst (get_table d name)\<close> and keep \<open>d\<close>.

  \<^verbatim>\<open>Table.is_valid_record\<close>, with the loop over \<^verbatim>\<open>record["subrecords"]\<close>
  (\<open>valid_subrecords\<close>) and the loop over one table's records (\<open>valid_list\<close>), which
  calls \<^verbatim>\<open>Table.get_table(self.db_loc, table).is_valid_record(rec)\<close>.
\<close>

function is_valid_record :: "handle \<Rightarrow> pyrecord \<Rightarrow> db \<Rightarrow> error + verdict"
  and valid_subrecords :: "handle \<Rightarrow> (string \<times> pyrecord list) list \<Rightarrow> db \<Rightarrow> error + verdict"
  and valid_list :: "string \<Rightarrow> pyrecord list \<Rightarrow> db \<Rightarrow> error + verdict" where
  "is_valid_record h (Record i fs subs) d =
     (if int (length fs + 2) - 2 \<noteq> int (length (fields_and_types h))
      then Inr (Invalid WrongFieldCount)
      else if length (subtables h) \<noteq> length subs then Inr (Invalid WrongSubtableCount)
      else case check_fields (Record i fs subs) (fields_and_types h) of
             Inl e \<Rightarrow> Inl e
           | Inr (Invalid w) \<Rightarrow> Inr (Invalid w)
           | Inr Valid \<Rightarrow> valid_subrecords h subs d)"
| "valid_subrecords h [] d = Inr Valid"
| "valid_subrecords h ((table, recs) # subs) d =
     (if table \<notin> set (subtables h) then Inr (Invalid (UndeclaredSubtable table))
      else case valid_list table recs d of
             Inl e \<Rightarrow> Inl e
           | Inr (Invalid w) \<Rightarrow> Inr (Invalid w)
           | Inr Valid \<Rightarrow> valid_subrecords h subs d)"
| "valid_list table [] d = Inr Valid"
| "valid_list table (rec # recs) d =
     (case fst (get_table d table) of
        Inl e \<Rightarrow> Inl e
      | Inr ht \<Rightarrow>
          (case is_valid_record ht rec d of
             Inl e \<Rightarrow> Inl e
           | Inr (Invalid w) \<Rightarrow> Inr (Invalid w)
           | Inr Valid \<Rightarrow> valid_list table recs d))"
  by pat_completeness auto
termination
  by (relation "measure (\<lambda>x. case x of
         Inl (h, r, d) \<Rightarrow> size r
       | Inr (Inl (h, subs, d)) \<Rightarrow> size_list (size_prod (\<lambda>t. 0) (size_list size)) subs
       | Inr (Inr (t, recs, d)) \<Rightarrow> size_list size recs)") auto

text \<open>The \<^verbatim>\<open>subrecords_str\<close> of \<^verbatim>\<open>save_record\<close>: per table, the ids of its records.\<close>

definition manifest_of :: "(string \<times> pyrecord list) list \<Rightarrow> manifest" where
  "manifest_of subs = map (\<lambda>(table, recs). (table, map rec_id recs)) subs"

text \<open>
  The statement of \<^verbatim>\<open>save_record\<close>: an \<^verbatim>\<open>UPDATE\<close> when
  \<^verbatim>\<open>SELECT id ... WHERE id = record['id']\<close> finds a row, an \<^verbatim>\<open>INSERT\<close> otherwise. With
  no field the insert's column list is \<^verbatim>\<open>(id,,subrecords)\<close>, a syntax error.
\<close>

definition write_row :: "handle \<Rightarrow> pyrecord \<Rightarrow> db \<Rightarrow> error + db" where
  "write_row h r d =
     (case sql_select_id d (table_name h) (rec_id r) of
        Inl e \<Rightarrow> Inl e
      | Inr (Some found) \<Rightarrow>
          sql_update d (table_name h) (rec_id r) (rec_fields r) (manifest_of (rec_subrecords r))
      | Inr None \<Rightarrow>
          if rec_fields r = [] then Inl OperationalError
          else sql_insert d (table_name h) (rec_id r) (rec_fields r) (manifest_of (rec_subrecords r)))"

text \<open>
  \<^verbatim>\<open>Table.save_record\<close>: validation, the row, then every subrecord through the handle
  \<^verbatim>\<open>Table.get_table(self.db_loc, table)\<close>. The result is the exception raised, if any,
  and the store with every statement committed before it.
\<close>

function save_record :: "handle \<Rightarrow> pyrecord \<Rightarrow> db \<Rightarrow> error option \<times> db"
  and save_subrecords :: "(string \<times> pyrecord list) list \<Rightarrow> db \<Rightarrow> error option \<times> db"
  and save_list :: "string \<Rightarrow> pyrecord list \<Rightarrow> db \<Rightarrow> error option \<times> db" where
  "save_record h (Record i fs subs) d =
     (case is_valid_record h (Record i fs subs) d of
        Inl e \<Rightarrow> (Some e, d)
      | Inr (Invalid w) \<Rightarrow> (Some InvalidRecordError, d)
      | Inr Valid \<Rightarrow>
          (case write_row h (Record i fs subs) d of
             Inl e \<Rightarrow> (Some e, d)
           | Inr d1 \<Rightarrow> save_subrecords subs d1))"
| "save_subrecords [] d = (None, d)"
| "save_subrecords ((table, recs) # subs) d =
     (case save_list table recs d of
        (Some e, d1) \<Rightarrow> (Some e, d1)
      | (None, d1) \<Rightarrow> save_subrecords subs d1)"
| "save_list table [] d = (None, d)"
| "save_list table (r # recs) d =
     (case fst (get_table d table) of
        Inl e \<Rightarrow> (Some e, d)
      | Inr ht \<Rightarrow>
          (case save_record ht r d of
             (Some e, d1) \<Rightarrow> (Some e, d1)
           | (None, d1) \<Rightarrow> save_list table recs d1))"
  by pat_completeness auto
termination
  by (relation "measure (\<lambda>x. case x of
         Inl (h, r, d) \<Rightarrow> size r
       | Inr (Inl (subs, d)) \<Rightarrow> size_list (size_prod (\<lambda>t. 0) (size_list size)) subs
       | Inr (Inr (t, recs, d)) \<Rightarrow> size_list size recs)") auto

text \<open>A loop that appends \<open>g x\<close> for every \<open>x\<close> and stops at the first exception.\<close>

fun mapM :: "('a \<Rightarrow> error + 'b) \<Rightarrow> 'a list \<Rightarrow> error + 'b list" where
  "mapM g [] = Inr []"
| "mapM g (x # xs) =
     (case g x of
        Inl e \<Rightarrow> Inl e
      | Inr y \<Rightarrow> (case mapM g xs of Inl e \<Rightarrow> Inl e | Inr ys \<Rightarrow> Inr (y # ys)))"

text \<open>The loop \<^verbatim>\<open>for table_name in subrecords_raw\<close> of \<^verbatim>\<open>get_record\<close> and
  \<^verbatim>\<open>fetchall\<close>; \<open>g table i\<close> is \<^verbatim>\<open>Table.get_table(self.db_loc, table_name).get_record(i)\<close>.\<close>

fun hydrate ::
  "(string \<Rightarrow> int \<Rightarrow> error + pyrecord) \<Rightarrow> manifest \<Rightarrow> error + (string \<times> pyrecord list) list" where
  "hydrate g [] = Inr []"
| "hydrate g ((table, ids) # m) =
     (case mapM (g table) ids of
        Inl e \<Rightarrow> Inl e
      | Inr recs \<Rightarrow>
          (case hydrate g m of Inl e \<Rightarrow> Inl e | Inr rest \<Rightarrow> Inr ((table, recs) # rest)))"

text \<open>The dict \<^verbatim>\<open>{"id": i, **kvs, "subrecords": subs}\<close> built by assignments in this
  order: an entry of \<open>kvs\<close> under a reserved key does not stay a field.\<close>

definition mk_record :: "int \<Rightarrow> (string \<times> val) list \<Rightarrow> (string \<times> pyrecord list) list \<Rightarrow> pyrecord" where
  "mk_record i kvs subs = Record i (filter (\<lambda>(k, v). \<not> reserved k) kvs) subs"

definition row_record :: "handle \<Rightarrow> row \<Rightarrow> (string \<times> pyrecord list) list \<Rightarrow> pyrecord" where
  "row_record h resp subs =
     mk_record (row_id resp) (map (\<lambda>(f, ty). (f, row_val resp f)) (fields_and_types h)) subs"

text \<open>
  \<^verbatim>\<open>Table.get_record\<close>. The recursion follows the ids stored in the rows, which may
  form a cycle; the first argument is the number of nested calls Python's recursion limit
  still allows, and \<^verbatim>\<open>RecursionError\<close> is raised when none is left.
\<close>

fun get_record :: "nat \<Rightarrow> handle \<Rightarrow> db \<Rightarrow> int \<Rightarrow> error + pyrecord" where
  "get_record 0 h d i = Inl RecursionError"
| "get_record (Suc n) h d i =
     (case sql_select_fields d (table_name h) (map fst (fields_and_types h)) of
        Inl e \<Rightarrow> Inl e
      | Inr t \<Rightarrow>
          (case find_row (tbl_rows t) i of
             None \<Rightarrow> Inl InvalidRecordError
           | Some resp \<Rightarrow>
               (case hydrate (\<lambda>table j. case fst (get_table d table) of
                                          Inl e \<Rightarrow> Inl e
                                        | Inr ht \<Rightarrow> get_record n ht d j)
                             (json_loads (row_manifest resp)) of
                  Inl e \<Rightarrow> Inl e
                | Inr subrecords \<Rightarrow> Inr (row_record h resp subrecords))))"

text \<open>\<^verbatim>\<open>Table.fetchall\<close>: the loop of \<^verbatim>\<open>get_record\<close> on every row selected.\<close>

fun fetchall :: "nat \<Rightarrow> handle \<Rightarrow> db \<Rightarrow> error + pyrecord list" where
  "fetchall 0 h d = Inl RecursionError"
| "fetchall (Suc n) h d =
     (case sql_select_fields d (table_name h) (map fst (fields_and_types h)) of
        Inl e \<Rightarrow> Inl e
      | Inr t \<Rightarrow>
          mapM (\<lambda>rec.
                  case hydrate (\<lambda>table j. case fst (get_table d table) of
                                             Inl e \<Rightarrow> Inl e
                                           | Inr ht \<Rightarrow> get_record n ht d j)
                               (json_loads (row_manifest rec)) of
                    Inl e \<Rightarrow> Inl e
                  | Inr subrecords \<Rightarrow> Inr (row_record h rec subrecords))
               (tbl_rows t))"

text \<open>\<^verbatim>\<open>Table.delete_record\<close>.\<close>

definition delete_record :: "handle \<Rightarrow> int \<Rightarrow> db \<Rightarrow> error option \<times> db" where
  "delete_record h i d =
     (case sql_delete d (table_name h) i of
        Inl e \<Rightarrow> (Some e, d)
      | Inr d1 \<Rightarrow> (None, d1))"

text \<open>
  \<^verbatim>\<open>Table.create_record\<close>. An entry \<^verbatim>\<open>"id"\<close> of \<^verbatim>\<open>fields\<close> overwrites the id just
  allocated; a record whose id is not an int is outside the record type.
\<close>

definition create_record ::
  "handle \<Rightarrow> (string \<times> val) list \<Rightarrow> (string \<times> pyrecord list) list \<Rightarrow> db
     \<Rightarrow> (error + pyrecord) \<times> handle" where
  "create_record h fs subrecords d =
     (case get_next_id h d of
        (Inl e, h1) \<Rightarrow> (Inl e, h1)
      | (Inr next_id, h1) \<Rightarrow>
          (case (case map_of fs ''id'' of
                   None \<Rightarrow> Some next_id
                 | Some (VInt i) \<Rightarrow> Some i
                 | Some v \<Rightarrow> None) of
             None \<Rightarrow> (Inl Unmodelled, h1)
           | Some i \<Rightarrow>
               let record = mk_record i fs subrecords in
               (case is_valid_record h1 record d of
                  Inl e \<Rightarrow> (Inl e, h1)
                | Inr (Invalid w) \<Rightarrow> (Inl InvalidRecordError, h1)
                | Inr Valid \<Rightarrow> (Inr record, h1))))"

text \<open>
  The parameter \<^verbatim>\<open>subrecords\<close> has the default \<^verbatim>\<open>{}\<close>: one dict, made when the
  \<^verbatim>\<open>def\<close> statement runs, which every call that omits the argument receives and stores
  in the record it returns (\<^verbatim>\<open>record["subrecords"] = subrecords\<close>). The records of such
  calls share that dict with the function, and an assignment a caller makes into
  \<^verbatim>\<open>record["subrecords"]\<close> changes what later calls receive. The content of the
  default dict is therefore part of the state of the program, empty when the module is
  loaded: \<open>create_record_call h fields arg default_subrecords d\<close> is the call with the
  argument given (\<open>Some\<close>) or omitted (\<open>None\<close>) when the default dict holds
  \<open>default_subrecords\<close>. The call itself leaves the content of the dict as it is.
\<close>

definition create_record_call ::
  "handle \<Rightarrow> (string \<times> val) list \<Rightarrow> (string \<times> pyrecord list) list option
     \<Rightarrow> (string \<times> pyrecord list) list \<Rightarrow> db \<Rightarrow> (error + pyrecord) \<times> handle" where
  "create_record_call h fs arg default_subrecords d =
     create_record h fs (case arg of None \<Rightarrow> default_subrecords | Some subrecords \<Rightarrow> subrecords) d"

text \<open>\<^verbatim>\<open>str.isspace\<close> on the code points below 256, \<^verbatim>\<open>str.strip()\<close> and
  \<^verbatim>\<open>str.find(c)\<close> for a character that occurs.\<close>

definition isspace :: "char \<Rightarrow> bool" where
  "isspace c = (let n = (of_char c :: nat) in
     (9 \<le> n \<and> n \<le> 13) \<or> (28 \<le> n \<and> n \<le> 32) \<or> n = 133 \<or> n = 160)"

definition strip :: "string \<Rightarrow> string" where
  "strip s = rev (dropWhile isspace (rev (dropWhile isspace s)))"

definition py_find :: "char \<Rightarrow> string \<Rightarrow> nat" where
  "py_find c s = length (takeWhile (\<lambda>x. x \<noteq> c) s)"

text \<open>
  \<^verbatim>\<open>_get_keywords\<close>, the local function of \<^verbatim>\<open>search_records\<close>: \<^verbatim>\<open>s[0]\<close> raises
  \<^verbatim>\<open>IndexError\<close> on the empty string. The function calls itself once per keyword; as
  for \<^verbatim>\<open>get_record\<close>, the first argument is the number of nested calls the recursion
  limit still allows.
\<close>

fun get_keywords :: "nat \<Rightarrow> string \<Rightarrow> error + string list" where
  "get_keywords 0 s0 = Inl RecursionError"
| "get_keywords (Suc n) s0 =
     (let s = strip s0 in
      case s of
        [] \<Rightarrow> Inl IndexError
      | c # cs \<Rightarrow>
          if c = CHR 0x22 \<and> count_list s (CHR 0x22) > 1 then
            (let phrase_end = py_find (CHR 0x22) cs + 1 in
             case get_keywords n (drop (phrase_end + 1) s) of
               Inl e \<Rightarrow> Inl e
             | Inr ks \<Rightarrow> Inr (take (phrase_end - 1) (drop 1 s) # ks))
          else if CHR '' '' \<in> set s then
            (let space_loc = py_find (CHR '' '') s in
             case get_keywords n (drop (space_loc + 1) s) of
               Inl e \<Rightarrow> Inl e
             | Inr ks \<Rightarrow> Inr (take space_loc s # ks))
          else Inr [s])"

declare get_keywords.simps [simp del]

text \<open>
  The \<^verbatim>\<open>LIKE\<close> operator of SQLite, pattern first: \<^verbatim>\<open>%\<close> matches any run of characters,
  \<^verbatim>\<open>_\<close> any one character, and every other character itself or the same ASCII letter of
  the other case.
\<close>

fun like :: "string \<Rightarrow> string \<Rightarrow> bool" where
  "like [] s = (s = [])"
| "like (p # ps) s =
     (if p = CHR ''%'' then
        (like ps s \<or> (case s of [] \<Rightarrow> False | c # cs \<Rightarrow> like (p # ps) cs))
      else
        (case s of
           [] \<Rightarrow> False
         | c # cs \<Rightarrow> (p = CHR ''_'' \<or> lower_char p = lower_char c) \<and> like ps cs))"

text \<open>\<^verbatim>\<open>str(i)\<close> for an int: its decimal digits.\<close>

function digits :: "nat \<Rightarrow> string" where
  "digits n = (if n < 10 then [char_of (48 + n)] else digits (n div 10) @ [char_of (48 + n mod 10)])"
  by pat_completeness auto
termination
  by (relation "measure (\<lambda>n. n)") auto

definition str_int :: "int \<Rightarrow> string" where
  "str_int i = (if i < 0 then CHR ''-'' # digits (nat (- i)) else digits (nat i))"

text \<open>
  \<^verbatim>\<open>column LIKE pattern\<close> on the value of a row: a text is matched as it is, an integer
  through its decimal text, and NULL never matches. SQLite matches a REAL through the text
  it renders the number to and a BLOB through its bytes; the model keeps both unread and
  gives no answer for them (\<open>None\<close>).
\<close>

definition like_value :: "string \<Rightarrow> val \<Rightarrow> bool option" where
  "like_value p v =
     (case v of
        VText s \<Rightarrow> Some (like p s)
      | VInt i \<Rightarrow> Some (like p (str_int i))
      | VNone \<Rightarrow> Some False
      | VReal x \<Rightarrow> None
      | VBlob b \<Rightarrow> None)"

text \<open>The condition of a relative search, \<^verbatim>\<open>(f LIKE "%k1%" OR ... OR f LIKE "%query%")\<close>:
  one pattern per keyword and one for the whole query.\<close>

definition relative_match :: "string list \<Rightarrow> string \<Rightarrow> val \<Rightarrow> bool option" where
  "relative_match ks q v =
     (if list_all (\<lambda>k. like_value (''%'' @ k @ ''%'') v \<noteq> None) (ks @ [q])
      then Some (list_ex (\<lambda>k. like_value (''%'' @ k @ ''%'') v = Some True) (ks @ [q]))
      else None)"

text \<open>The condition of a strict search with an integer literal, \<^verbatim>\<open>f = k\<close>, on the value
  of a row: read for an integer and for NULL.\<close>

definition strict_match :: "int \<Rightarrow> val \<Rightarrow> bool option" where
  "strict_match k v =
     (case v of VInt j \<Rightarrow> Some (j = k) | VNone \<Rightarrow> Some False | _ \<Rightarrow> None)"

text \<open>A query that is a decimal integer literal.\<close>

definition is_digit :: "char \<Rightarrow> bool" where
  "is_digit c = (let n = (of_char c :: nat) in 48 \<le> n \<and> n \<le> 57)"

definition int_literal :: "string \<Rightarrow> int option" where
  "int_literal s =
     (if s \<noteq> [] \<and> list_all is_digit s
      then Some (int (foldl (\<lambda>a c. 10 * a + (of_char c - 48)) 0 s))
      else None)"

text \<open>
  \<^verbatim>\<open>SELECT id FROM name WHERE (condition on field) AND id != e1 AND id != e2 ...\<close>:
  \<open>Unmodelled\<close> when the condition has no answer on the value of some row.
\<close>

definition sql_select_where ::
  "db \<Rightarrow> string \<Rightarrow> string \<Rightarrow> (val \<Rightarrow> bool option) \<Rightarrow> int list \<Rightarrow> error + int list" where
  "sql_select_where d name field cond exclude_ids =
     (case d name of
        None \<Rightarrow> Inl OperationalError
      | Some t \<Rightarrow>
          if \<not> (has_column t ''id'' \<and> has_column t field) then Inl OperationalError
          else if \<not> list_all (\<lambda>r. cond (row_val r field) \<noteq> None) (tbl_rows t)
          then Inl Unmodelled
          else Inr (map row_id
                 (filter (\<lambda>r. cond (row_val r field) = Some True \<and> row_id r \<notin> set exclude_ids)
                         (tbl_rows t))))"

text \<open>
  The statements SQLite refuses for their size: a \<^verbatim>\<open>LIKE\<close> pattern of more than 50000
  bytes, and a condition nested deeper than 1000 operators, one per keyword and one per
  excluded id. The model reads a search well within both limits.
\<close>

definition within_limits :: "string \<Rightarrow> string list \<Rightarrow> int list \<Rightarrow> bool" where
  "within_limits search_for key_words exclude_ids =
     (length search_for \<le> 49000 \<and> length key_words + length exclude_ids \<le> 900)"

text \<open>
  \<^verbatim>\<open>Table.search_records\<close>; the first argument is the number of nested calls the
  recursion limit still allows. In strict mode the query is spliced into the statement as
  it is, \<^verbatim>\<open>field = query\<close>: the model reads it when it is an integer literal compared with
  an \<^verbatim>\<open>INTEGER\<close> column. In relative mode the patterns stand between double quotes, so a
  query with a double quote or a NUL is not read.
\<close>

definition search_records ::
  "nat \<Rightarrow> handle \<Rightarrow> string \<Rightarrow> string \<Rightarrow> int list \<Rightarrow> bool \<Rightarrow> db \<Rightarrow> error + pyrecord list" where
  "search_records n h field_to_search search_for exclude_ids strict d =
     (if field_to_search \<notin> set (map fst (fields_and_types h)) then Inl InvalidRecordError
      else
        (case (if strict then
                 (case (int_literal search_for, map_of (table_info d (table_name h)) field_to_search) of
                    (Some k, Some ty) \<Rightarrow>
                      if ty = ''INTEGER'' \<and> within_limits search_for [] exclude_ids
                      then Inr (strict_match k) else Inl Unmodelled
                  | _ \<Rightarrow> Inl Unmodelled)
               else
                 (case get_keywords n search_for of
                    Inl e \<Rightarrow> Inl e
                  | Inr key_words \<Rightarrow>
                      if CHR 0x22 \<in> set search_for \<or> CHR 0x00 \<in> set search_for
                         \<or> \<not> within_limits search_for key_words exclude_ids
                      then Inl Unmodelled
                      else Inr (relative_match key_words search_for))) of
           Inl e \<Rightarrow> Inl e
         | Inr cond \<Rightarrow>
             (case sql_select_where d (table_name h) field_to_search cond exclude_ids of
                Inl e \<Rightarrow> Inl e
              | Inr resp \<Rightarrow> mapM (get_record n h d) resp)))"

section \<open>Definitions for the statements\<close>

text \<open>The ids of the rows of a table, in the store's order.\<close>

definition row_ids :: "db \<Rightarrow> string \<Rightarrow> int list" where
  "row_ids d name = (case d name of None \<Rightarrow> [] | Some t \<Rightarrow> map row_id (tbl_rows t))"

text \<open>
  Successive calls of \<^verbatim>\<open>get_next_id\<close> on one \<^verbatim>\<open>Table\<close> object: the \<open>k\<close>-th call
  reads the \<open>k\<close>-th store of the list, and the object keeps its \<^verbatim>\<open>_max_id\<close> from call to
  call. \<open>returned\<close> lists the values of the calls that returned.
\<close>

fun next_ids :: "handle \<Rightarrow> db list \<Rightarrow> (error + int) list" where
  "next_ids h [] = []"
| "next_ids h (d # ds) = (case get_next_id h d of (r, h') \<Rightarrow> r # next_ids h' ds)"

definition returned :: "(error + int) list \<Rightarrow> int list" where
  "returned rs = concat (map (\<lambda>r. case r of Inl e \<Rightarrow> [] | Inr v \<Rightarrow> [v]) rs)"

text \<open>The scenario of the specification: the table \<^verbatim>\<open>Pet\<close> with a text field
  \<^verbatim>\<open>name\<close> and an integer field \<^verbatim>\<open>age\<close>, just created in an empty database.\<close>

definition pet_handle :: handle where
  "pet_handle = \<lparr>table_name = ''Pet'',
                  fields_and_types = [(''name'', ''TEXT''), (''age'', ''INTEGER'')],
                  subtables = [], max_id = 0\<rparr>"

definition pet_db :: db where
  "pet_db = snd (Table_init (\<lambda>n. None) ''Pet'' [(''name'', ''text''), (''age'', ''integer'')] [])"

text \<open>The record of the scenario, and the database after it is saved.\<close>

definition rex :: pyrecord where
  "rex = Record 1 [(''name'', VText ''Rex''), (''age'', VInt 3)] []"

definition pet_db_rex :: db where
  "pet_db_rex = snd (save_record pet_handle rex pet_db)"

text \<open>The rows of one id in one table (at most one, the id being the primary key).\<close>

definition rows_at :: "db \<Rightarrow> string \<Rightarrow> int \<Rightarrow> row list" where
  "rows_at d name i =
     (case d name of None \<Rightarrow> [] | Some t \<Rightarrow> filter (\<lambda>r. row_id r = i) (tbl_rows t))"


text \<open>
  \<open>frame S d d'\<close>: from \<open>d\<close> to \<open>d'\<close> no table appeared, vanished or changed its
  columns, and outside the places \<open>S\<close> every row is the same.
\<close>

definition same_columns :: "db \<Rightarrow> db \<Rightarrow> bool" where
  "same_columns d d' = (\<forall>name. map_option tbl_cols (d' name) = map_option tbl_cols (d name))"

definition frame :: "(string \<times> int) set \<Rightarrow> db \<Rightarrow> db \<Rightarrow> bool" where
  "frame S d d' = (same_columns d d'
     \<and> (\<forall>name i. (name, i) \<notin> S \<longrightarrow> rows_at d' name i = rows_at d name i))"

text \<open>A table \<^verbatim>\<open>Owner\<close> that declares \<^verbatim>\<open>Pet\<close> as its subtable, created next to
  \<^verbatim>\<open>Pet\<close>, and the database after the owner Ann is saved with her pet Rex.\<close>

definition owner_handle :: handle where
  "owner_handle = \<lparr>table_name = ''Owner'', fields_and_types = [(''name'', ''TEXT'')],
                    subtables = [''Pet''], max_id = 0\<rparr>"

definition ann :: pyrecord where
  "ann = Record 1 [(''name'', VText ''Ann'')] [(''Pet'', [rex])]"

definition owner_db :: db where
  "owner_db = snd (save_record owner_handle ann
                (snd (Table_init pet_db ''Owner'' [(''name'', ''text'')] [''Pet''])))"






section \<open>The constructor and \<^verbatim>\<open>get_table\<close>\<close>

lemma get_table_store: "snd (get_table d name) = d"
  by (auto simp: get_table_def Table_init_def create_self_def Let_def
           split: sum.splits option.splits)

section \<open>Id allocation\<close>

lemma sql_max_id_ge:
  assumes "sql_max_id d name = Inr (Some m)" and "i \<in> set (row_ids d name)"
  shows "i \<le> m"
proof -
  obtain t where t: "d name = Some t"
    using assms(1) by (auto simp: sql_max_id_def split: option.splits)
  from assms(1) t obtain j js where js: "map row_id (tbl_rows t) = j # js" and m: "m = fold max js j"
    by (auto simp: sql_max_id_def split: list.splits)
  from assms(2) t js have "i = j \<or> i \<in> set js" by (simp add: row_ids_def)
  then show ?thesis using fold_max_ge [of j js] m by auto
qed

lemma get_next_id_step:
  assumes "get_next_id h d = (r, h')"
  shows "table_name h' = table_name h \<and> max_id h \<le> max_id h' \<and>
         (\<forall>v. r = Inr v \<longrightarrow> v = max_id h' \<and> max_id h < v \<and> (\<forall>i \<in> set (row_ids d (table_name h)). i < v))"
proof (cases "sql_max_id d (table_name h)")
  case (Inl e)
  then show ?thesis using assms by (auto simp: get_next_id.simps [of h d])
next
  case (Inr mo)
  show ?thesis
  proof (cases mo)
    case None
    then show ?thesis using assms Inr by (auto simp: get_next_id.simps [of h d])
  next
    case (Some m)
    have bound: "\<forall>i \<in> set (row_ids d (table_name h)). i \<le> m"
      using sql_max_id_ge Inr Some by blast
    show ?thesis
    proof (cases "m < max_id h")
      case False
      then have "r = Inr (m + 1)" "h' = h\<lparr>max_id := m + 1\<rparr>"
        using assms Inr Some by (simp_all add: get_next_id.simps [of h d])
      then show ?thesis using bound False by auto
    next
      case True
      show ?thesis
      proof (cases "sql_select_id d (table_name h) (max_id h)")
        case (Inl e)
        then show ?thesis using assms Inr Some True by (auto simp: get_next_id.simps [of h d])
      next
        case sel: (Inr ro)
        show ?thesis
        proof (cases ro)
          case None
          then have "r = Inr (max_id h + 1)" "h' = h\<lparr>max_id := max_id h + 1\<rparr>"
            using assms Inr Some True sel by (simp_all add: get_next_id.simps [of h d])
          then show ?thesis using bound True by auto
        next
          case (Some res)
          then have "max_id h \<le> m"
            using sql_max_id_bound [of d "table_name h" m "max_id h" res] Inr \<open>mo = Some m\<close> sel by simp
          then show ?thesis using True by simp
        qed
      qed
    qed
  qed
qed

lemma next_ids_lower: "v \<in> set (returned (next_ids h ds)) \<Longrightarrow> max_id h < v"
proof (induction ds arbitrary: h)
  case Nil
  then show ?case by (simp add: returned_def)
next
  case (Cons d ds)
  obtain r h' where step: "get_next_id h d = (r, h')" by (cases "get_next_id h d")
  note st = get_next_id_step [OF step]
  from Cons.prems step have "v \<in> set (returned [r]) \<or> v \<in> set (returned (next_ids h' ds))"
    by (auto simp: returned_def)
  then show ?case
  proof
    assume "v \<in> set (returned [r])"
    then have "r = Inr v" by (cases r) (simp_all add: returned_def)
    then show ?thesis using st by simp
  next
    assume "v \<in> set (returned (next_ids h' ds))"
    then have "max_id h' < v" by (rule Cons.IH)
    then show ?thesis using st by simp
  qed
qed

lemma next_ids_sorted: "sorted_wrt (<) (returned (next_ids h ds))"
proof (induction ds arbitrary: h)
  case Nil
  show ?case by (simp add: returned_def)
next
  case (Cons d ds)
  obtain r h' where step: "get_next_id h d = (r, h')" by (cases "get_next_id h d")
  note st = get_next_id_step [OF step]
  have eq: "returned (next_ids h (d # ds)) = returned [r] @ returned (next_ids h' ds)"
    using step by (simp add: returned_def)
  show ?case
  proof (cases r)
    case (Inl e)
    then show ?thesis using eq Cons.IH [of h'] by (simp add: returned_def)
  next
    case (Inr v)
    then have "v = max_id h'" using st by simp
    then have "\<forall>u \<in> set (returned (next_ids h' ds)). v < u"
      using next_ids_lower by blast
    then show ?thesis using eq Inr Cons.IH [of h'] by (simp add: returned_def)
  qed
qed

lemma next_ids_table_name:
  "k < length ds \<Longrightarrow> next_ids h ds ! k = Inr v \<Longrightarrow> v \<notin> set (row_ids (ds ! k) (table_name h))"
proof (induction ds arbitrary: h k)
  case Nil
  then show ?case by simp
next
  case (Cons d ds)
  obtain r h' where step: "get_next_id h d = (r, h')" by (cases "get_next_id h d")
  note st = get_next_id_step [OF step]
  show ?case
  proof (cases k)
    case 0
    then have "r = Inr v" using Cons.prems step by simp
    then show ?thesis using st 0 by auto
  next
    case (Suc j)
    then have "j < length ds" "next_ids h' ds ! j = Inr v" using Cons.prems step by simp_all
    then have "v \<notin> set (row_ids (ds ! j) (table_name h'))" by (rule Cons.IH)
    then show ?thesis using st Suc by simp
  qed
qed

text \<open>
  C3. In any sequence of \<^verbatim>\<open>get_next_id\<close> calls on one table object, whatever the store
  holds at each call (in particular when nothing is saved in between), a value returned
  is not the id of a row of the table at the time of its call, no value is returned twice
  and the values returned are in ascending order.
\<close>

theorem get_next_id_fresh_increasing:
  "(\<forall>k v. k < length ds \<longrightarrow> next_ids h ds ! k = Inr v \<longrightarrow> v \<notin> set (row_ids (ds ! k) (table_name h)))
   \<and> distinct (returned (next_ids h ds))
   \<and> sorted (returned (next_ids h ds))"
proof -
  have s: "sorted_wrt (<) (returned (next_ids h ds))" by (rule next_ids_sorted)
  have "distinct (returned (next_ids h ds))" using s by (simp add: strict_sorted_iff)
  moreover have "sorted (returned (next_ids h ds))" using s by (simp add: strict_sorted_iff)
  ultimately show ?thesis using next_ids_table_name by blast
qed

theorem get_next_id_fresh_increasing_witness:
  "returned (next_ids pet_handle [pet_db, pet_db, pet_db]) = [1, 2, 3]
   \<and> set (row_ids pet_db ''Pet'') = {0}
   \<and> 1 \<notin> set (row_ids (pet_db) (table_name pet_handle))
   \<and> distinct (returned (next_ids pet_handle [pet_db, pet_db, pet_db]))
   \<and> sorted (returned (next_ids pet_handle [pet_db, pet_db, pet_db]))"
proof -
  have e: "next_ids pet_handle [pet_db, pet_db, pet_db] = [Inr 1, Inr 2, Inr 3]"
    by code_simp
  have r: "returned (next_ids pet_handle [pet_db, pet_db, pet_db]) = [1, 2, 3]"
    by code_simp
  have i: "row_ids pet_db ''Pet'' = [0]"
    by code_simp
  note t = get_next_id_fresh_increasing [of "[pet_db, pet_db, pet_db]" pet_handle]
  from t have "(0::nat) < length [pet_db, pet_db, pet_db] \<longrightarrow>
      next_ids pet_handle [pet_db, pet_db, pet_db] ! 0 = Inr 1 \<longrightarrow>
      1 \<notin> set (row_ids ([pet_db, pet_db, pet_db] ! 0) (table_name pet_handle))"
    by blast
  then have "1 \<notin> set (row_ids pet_db (table_name pet_handle))"
    using e by simp
  then show ?thesis using t r i by simp
qed

section \<open>Saving an invalid record\<close>

text \<open>
  C10. When \<^verbatim>\<open>is_valid_record\<close> rejects a record, \<^verbatim>\<open>save_record\<close> raises
  \<^verbatim>\<open>InvalidRecordError\<close> and the store is the one it was given: the validation comes
  before every statement, and the handles it opens with \<^verbatim>\<open>get_table\<close> write nothing.
\<close>

theorem save_record_invalid_unchanged:
  assumes "is_valid_record h r d = Inr (Invalid w)"
  shows "save_record h r d = (Some InvalidRecordError, d) \<and> (\<forall>name. snd (get_table d name) = d)"
  using assms by (cases r) (simp add: get_table_store)

theorem save_record_invalid_unchanged_witness:
  "is_valid_record pet_handle (Record 1 [(''name'', VText ''Rex'')] []) pet_db = Inr (Invalid WrongFieldCount)
   \<and> save_record pet_handle (Record 1 [(''name'', VText ''Rex'')] []) pet_db
       = (Some InvalidRecordError, pet_db)"
proof -
  have v: "is_valid_record pet_handle (Record 1 [(''name'', VText ''Rex'')] []) pet_db
             = Inr (Invalid WrongFieldCount)"
    by code_simp
  from save_record_invalid_unchanged [OF v] v show ?thesis by simp
qed

section \<open>An id with no row\<close>

lemma filter_id_absent: "find_row rs i = None \<Longrightarrow> filter (\<lambda>r. row_id r \<noteq> i) rs = rs"
  unfolding find_row_def by (induction rs) (auto split: if_splits)

lemma tbl_same: "Tbl (tbl_cols t) (tbl_rows t) = t"
  by (cases t) simp

text \<open>
  C9, as the code has it. For an id with no row in a table that the \<^verbatim>\<open>SELECT\<close> of the
  handle can read, \<^verbatim>\<open>get_record\<close> raises \<^verbatim>\<open>InvalidRecordError\<close> (the class the source
  raises for a missing record), and \<^verbatim>\<open>delete_record\<close> returns without an exception and
  leaves the store as it was.
\<close>

theorem absent_id_get_fails_delete_returns:
  assumes "sql_select_fields d (table_name h) (map fst (fields_and_types h)) = Inr t"
    and "find_row (tbl_rows t) i = None"
  shows "get_record (Suc n) h d i = Inl InvalidRecordError \<and> delete_record h i d = (None, d)"
proof -
  from assms(1) have t: "d (table_name h) = Some t"
    by (auto simp: sql_select_fields_def split: option.splits if_splits)
  have "d(table_name h \<mapsto> t) = d" using t by (rule map_upd_triv)
  then have "delete_record h i d = (None, d)"
    using t assms(2) by (simp add: delete_record_def sql_delete_def filter_id_absent tbl_same)
  moreover have "get_record (Suc n) h d i = Inl InvalidRecordError"
    using assms by simp
  ultimately show ?thesis by simp
qed

theorem absent_id_get_fails_delete_returns_witness:
  "get_record (Suc 0) pet_handle pet_db 7 = Inl InvalidRecordError
   \<and> delete_record pet_handle 7 pet_db = (None, pet_db)
   \<and> 7 \<notin> set (row_ids pet_db ''Pet'')"
proof -
  have s: "sql_select_fields pet_db (table_name pet_handle) (map fst (fields_and_types pet_handle))
             = Inr (the (pet_db ''Pet''))"
    by code_simp
  have f: "find_row (tbl_rows (the (pet_db ''Pet''))) 7 = None"
    by code_simp
  have "7 \<notin> set (row_ids pet_db ''Pet'')" by code_simp
  then show ?thesis using absent_id_get_fails_delete_returns [OF s f, of 0] by simp
qed

text \<open>The claim C9 as stated fails: deleting the id 7, which has no row in the new table
  \<^verbatim>\<open>Pet\<close>, raises nothing.\<close>

theorem delete_absent_no_error_counterexample:
  "7 \<notin> set (row_ids pet_db ''Pet'') \<and> fst (delete_record pet_handle 7 pet_db) = None"
  by code_simp

section \<open>\<^verbatim>\<open>fetchall\<close>\<close>

lemma mapM_cong: "(\<And>x. x \<in> set xs \<Longrightarrow> f x = g x) \<Longrightarrow> mapM f xs = mapM g xs"
  by (induction xs) (simp_all split: sum.splits)

lemma mapM_map: "mapM f (map g xs) = mapM (\<lambda>x. f (g x)) xs"
  by (induction xs) (simp_all split: sum.splits)

lemma find_row_distinct:
  "distinct (map row_id rs) \<Longrightarrow> r \<in> set rs \<Longrightarrow> find_row rs (row_id r) = Some r"
  unfolding find_row_def by (induction rs) force+

text \<open>
  C4, as the code has it. \<^verbatim>\<open>fetchall\<close> selects with no \<^verbatim>\<open>WHERE\<close> clause: on a table
  whose ids are distinct (\<^verbatim>\<open>id\<close> is the primary key) it returns what \<^verbatim>\<open>get_record\<close>
  returns for every row of the table, the row 0 included, in the store's order, and raises
  what the first failing \<^verbatim>\<open>get_record\<close> raises.
\<close>

theorem fetchall_every_row:
  assumes "sql_select_fields d (table_name h) (map fst (fields_and_types h)) = Inr t"
    and "distinct (map row_id (tbl_rows t))"
  shows "fetchall (Suc n) h d = mapM (get_record (Suc n) h d) (map row_id (tbl_rows t))"
proof -
  have "mapM (get_record (Suc n) h d) (map row_id (tbl_rows t))
        = mapM (\<lambda>r. get_record (Suc n) h d (row_id r)) (tbl_rows t)"
    by (rule mapM_map)
  also have "\<dots> = fetchall (Suc n) h d"
    unfolding fetchall.simps assms(1) sum.case
    by (rule mapM_cong) (simp add: assms find_row_distinct)
  finally show ?thesis by simp
qed

theorem fetchall_every_row_witness:
  "fetchall (Suc 0) pet_handle pet_db_rex
     = mapM (get_record (Suc 0) pet_handle pet_db_rex) [0, 1]
   \<and> fetchall (Suc 0) pet_handle pet_db_rex
     = Inr [Record 0 [(''name'', VNone), (''age'', VNone)] [], rex]"
proof -
  have s: "sql_select_fields pet_db_rex (table_name pet_handle) (map fst (fields_and_types pet_handle))
             = Inr (the (pet_db_rex ''Pet''))"
    by code_simp
  have i: "map row_id (tbl_rows (the (pet_db_rex ''Pet''))) = [0, 1]"
    by code_simp
  have dist: "distinct (map row_id (tbl_rows (the (pet_db_rex ''Pet''))))"
    unfolding i by simp
  have v: "fetchall (Suc 0) pet_handle pet_db_rex
             = Inr [Record 0 [(''name'', VNone), (''age'', VNone)] [], rex]"
    by code_simp
  from fetchall_every_row [OF s dist, of 0] i v show ?thesis by simp
qed

text \<open>The claim C4 as stated fails: on the new table \<^verbatim>\<open>Pet\<close>, \<^verbatim>\<open>fetchall\<close> returns
  the row 0, with every field \<^verbatim>\<open>None\<close>.\<close>

theorem fetchall_metadata_row_counterexample:
  "fetchall (Suc 0) pet_handle pet_db = Inr [Record 0 [(''name'', VNone), (''age'', VNone)] []]"
  by code_simp

section \<open>What the writing statements leave alone\<close>

lemma same_columns_refl: "same_columns d d"
  by (simp add: same_columns_def)








lemma Table_init_handle:
  assumes "fst (Table_init d name fts subs) = Inr h"
  shows "h = \<lparr>table_name = name, fields_and_types = map (\<lambda>(f, ty). (f, upper ty)) fts,
               subtables = subs, max_id = 0\<rparr>"
proof -
  let ?h = "\<lparr>table_name = name, fields_and_types = map (\<lambda>(f, ty). (f, upper ty)) fts,
               subtables = subs, max_id = 0\<rparr>"
  obtain e d1 where c: "create_self ?h d = (e, d1)" by (cases "create_self ?h d")
  from assms c show ?thesis
    by (cases e) (simp_all add: Table_init_def Let_def split: if_splits)
qed

lemma get_table_handle:
  assumes "fst (get_table d name) = Inr h"
  shows "table_name h = name"
    and "fields_and_types h = map (\<lambda>(f, ty). (f, upper ty)) (filter (\<lambda>(c, ty). \<not> reserved c) (table_info d name))"
    and "d name \<noteq> None"
proof -
  from assms have ne: "table_info d name \<noteq> []"
    by (auto simp: get_table_def Let_def)
  then show "d name \<noteq> None" by (cases "d name") (simp_all add: table_info_def)
  from assms ne obtain subs where
    "fst (Table_init d name (filter (\<lambda>(c, ty). \<not> reserved c) (table_info d name)) subs) = Inr h"
    by (cases "sql_select_id d name 0")
       (auto simp: get_table_def Let_def split: option.splits)
  from Table_init_handle [OF this]
  show "table_name h = name"
    and "fields_and_types h = map (\<lambda>(f, ty). (f, upper ty)) (filter (\<lambda>(c, ty). \<not> reserved c) (table_info d name))"
    by simp_all
qed

lemma frame_refl: "frame S d d"
  by (simp add: frame_def same_columns_refl)





lemma find_row_filter:
  "find_row rs i = (case filter (\<lambda>r. row_id r = i) rs of [] \<Rightarrow> None | r # rest \<Rightarrow> Some r)"
  unfolding find_row_def by (induction rs) simp_all

lemma get_table_fst:
  "fst (get_table d name) =
     (if table_info d name = [] then Inl TableNotFoundError
      else if \<not> list_all (\<lambda>(f, ty). valid_types ty \<noteq> None)
                 (map (\<lambda>(f, ty). (f, upper ty)) (filter (\<lambda>(c, ty). \<not> reserved c) (table_info d name)))
      then Inl ValueError
      else Inr \<lparr>table_name = name,
                 fields_and_types = map (\<lambda>(f, ty). (f, upper ty))
                                        (filter (\<lambda>(c, ty). \<not> reserved c) (table_info d name)),
                 subtables = (case rows_at d name 0 of
                                [] \<Rightarrow> []
                              | r # rs \<Rightarrow> map fst (json_loads (row_manifest r))),
                 max_id = 0\<rparr>)"
proof (cases "d name")
  case None
  then show ?thesis by (simp add: get_table_def table_info_def)
next
  case (Some t)
  have fr: "find_row (tbl_rows t) 0 = (case rows_at d name 0 of [] \<Rightarrow> None | r # rs \<Rightarrow> Some r)"
    by (simp add: find_row_filter rows_at_def Some)
  show ?thesis
  proof (cases "table_info d name = []")
    case True
    then show ?thesis by (simp add: get_table_def)
  next
    case False
    then show ?thesis
      using Some fr
      by (cases "rows_at d name 0")
         (simp_all add: get_table_def Let_def sql_select_id_def Table_init_def create_self_def)
  qed
qed

section \<open>Deletion and the row 0\<close>

lemma sql_delete_frame:
  assumes "sql_delete d name j = Inr d'"
  shows "frame {(name, j)} d d'" and "rows_at d' name j = []"
proof -
  obtain t where t: "d name = Some t"
    using assms by (cases "d name") (simp_all add: sql_delete_def)
  have d': "d' = d(name \<mapsto> Tbl (tbl_cols t) (filter (\<lambda>r. row_id r \<noteq> j) (tbl_rows t)))"
    using assms t by (simp add: sql_delete_def)
  show "rows_at d' name j = []"
    unfolding d' rows_at_def by simp
  have "rows_at d' name' i = rows_at d name' i" if "(name', i) \<noteq> (name, j)" for name' i
  proof (cases "name' = name")
    case False
    then show ?thesis unfolding d' rows_at_def by simp
  next
    case True
    with that have "i \<noteq> j" by auto
    then have "filter (\<lambda>r. row_id r = i) (filter (\<lambda>r. row_id r \<noteq> j) (tbl_rows t))
               = filter (\<lambda>r. row_id r = i) (tbl_rows t)"
      by (induction "tbl_rows t" arbitrary: t) (auto intro: filter_cong)
    then show ?thesis unfolding d' rows_at_def using True t by simp
  qed
  moreover have "same_columns d d'"
    unfolding d' same_columns_def using t by simp
  ultimately show "frame {(name, j)} d d'" by (simp add: frame_def)
qed

lemma delete_record_frame: "frame {(table_name h, i)} d (snd (delete_record h i d))"
proof (cases "sql_delete d (table_name h) i")
  case (Inl e)
  then show ?thesis by (simp add: delete_record_def frame_refl)
next
  case (Inr d1)
  then show ?thesis using sql_delete_frame(1) [OF Inr] by (simp add: delete_record_def)
qed

lemma delete_record_gone:
  "fst (delete_record h i d) = None \<Longrightarrow> rows_at (snd (delete_record h i d)) (table_name h) i = []"
proof (cases "sql_delete d (table_name h) i")
  case (Inl e)
  assume "fst (delete_record h i d) = None"
  with Inl show ?thesis by (simp add: delete_record_def)
next
  case (Inr d1)
  then show ?thesis using sql_delete_frame(2) [OF Inr] by (simp add: delete_record_def)
qed





section \<open>Fetching after a deletion\<close>

lemma mapM_Inr_all: "mapM f xs = Inr ys \<Longrightarrow> x \<in> set xs \<Longrightarrow> \<exists>y. f x = Inr y"
  by (induction xs arbitrary: ys) (auto split: sum.splits)

lemma hydrate_Inr_all:
  "hydrate g m = Inr subs \<Longrightarrow> (t, ids) \<in> set m \<Longrightarrow> k \<in> set ids \<Longrightarrow> \<exists>y. g t k = Inr y"
proof (induction m arbitrary: subs)
  case Nil
  then show ?case by simp
next
  case (Cons a m)
  obtain t' ids' where a: "a = (t', ids')" by (cases a)
  from Cons.prems(1) a obtain recs rest where
    m1: "mapM (g t') ids' = Inr recs" and m2: "hydrate g m = Inr rest"
    by (auto split: sum.splits)
  show ?case
  proof (cases "(t, ids) = (t', ids')")
    case True
    then show ?thesis using mapM_Inr_all [OF m1] Cons.prems(3) by auto
  next
    case False
    then have "(t, ids) \<in> set m" using Cons.prems(2) a by auto
    then show ?thesis using Cons.IH [OF m2] Cons.prems(3) by blast
  qed
qed

lemma mapM_rel:
  assumes "\<And>x y. x \<in> set xs \<Longrightarrow> f x = Inr y \<Longrightarrow> g x = Inr y \<or> g x = Inl E"
    and "mapM f xs = Inr ys"
  shows "mapM g xs = Inr ys \<or> mapM g xs = Inl E"
  using assms
proof (induction xs arbitrary: ys)
  case Nil
  then show ?case by simp
next
  case (Cons a xs)
  from Cons.prems(2) obtain y ys' where fa: "f a = Inr y" and fm: "mapM f xs = Inr ys'"
    and ys: "ys = y # ys'"
    by (auto split: sum.splits)
  have ga: "g a = Inr y \<or> g a = Inl E" using Cons.prems(1) [of a y] fa by simp
  have "mapM g xs = Inr ys' \<or> mapM g xs = Inl E"
    using Cons.IH [OF _ fm] Cons.prems(1) by simp
  with ga ys show ?case by auto
qed

lemma hydrate_rel:
  assumes "\<And>t k y. g t k = Inr y \<Longrightarrow> g' t k = Inr y \<or> g' t k = Inl E"
    and "hydrate g m = Inr subs"
  shows "hydrate g' m = Inr subs \<or> hydrate g' m = Inl E"
  using assms(2)
proof (induction m arbitrary: subs)
  case Nil
  then show ?case by simp
next
  case (Cons a m)
  obtain t ids where a: "a = (t, ids)" by (cases a)
  from Cons.prems a obtain recs rest where
    m1: "mapM (g t) ids = Inr recs" and m2: "hydrate g m = Inr rest" and s: "subs = (t, recs) # rest"
    by (auto split: sum.splits)
  have r1: "mapM (g' t) ids = Inr recs \<or> mapM (g' t) ids = Inl E"
    using mapM_rel [of ids "g t" "g' t" E recs] assms(1) m1 by blast
  have r2: "hydrate g' m = Inr rest \<or> hydrate g' m = Inl E"
    using Cons.IH [OF m2] .
  from r1 r2 a s show ?case by auto
qed

lemma get_record_handle_cong:
  "table_name h = table_name h' \<Longrightarrow> fields_and_types h = fields_and_types h'
     \<Longrightarrow> get_record n h d i = get_record n h' d i"
  by (cases n) (simp_all add: row_record_def split: sum.splits option.splits)

lemma get_table_same_columns:
  assumes "same_columns d d'"
  shows "fst (get_table d name) = Inl e \<Longrightarrow> fst (get_table d' name) = Inl e"
    and "fst (get_table d name) = Inr h \<Longrightarrow>
           \<exists>h'. fst (get_table d' name) = Inr h' \<and> table_name h' = table_name h
                \<and> fields_and_types h' = fields_and_types h"
proof -
  have ti: "table_info d' name = table_info d name"
    using assms
    by (cases "d name"; cases "d' name") (auto simp: same_columns_def table_info_def dest: spec [of _ name])
  show "fst (get_table d name) = Inl e \<Longrightarrow> fst (get_table d' name) = Inl e"
    unfolding get_table_fst ti by (simp split: if_splits)
  show "fst (get_table d name) = Inr h \<Longrightarrow>
           \<exists>h'. fst (get_table d' name) = Inr h' \<and> table_name h' = table_name h
                \<and> fields_and_types h' = fields_and_types h"
    unfolding get_table_fst ti by (auto split: if_splits)
qed

lemma sql_select_fields_Inr:
  "sql_select_fields d name fs = Inr t \<Longrightarrow> d name = Some t"
  by (auto simp: sql_select_fields_def split: option.splits if_splits)

lemma sql_select_fields_same_columns:
  assumes "same_columns d d'" and "sql_select_fields d name fs = Inr t"
  shows "\<exists>t'. sql_select_fields d' name fs = Inr t' \<and> d' name = Some t'"
proof -
  from assms(2) have t: "d name = Some t" by (rule sql_select_fields_Inr)
  from assms(1) t obtain t' where t': "d' name = Some t'" and c: "tbl_cols t' = tbl_cols t"
    by (cases "d' name") (auto simp: same_columns_def dest: spec [of _ name])
  have "has_column t' = has_column t" by (simp add: has_column_def c fun_eq_iff)
  with assms(2) t t' show ?thesis
    by (auto simp: sql_select_fields_def split: if_splits)
qed

lemma find_row_rows_at: "d name = Some t \<Longrightarrow>
   find_row (tbl_rows t) i = (case rows_at d name i of [] \<Rightarrow> None | r # rest \<Rightarrow> Some r)"
  by (simp add: find_row_filter rows_at_def)

lemma get_record_absent:
  assumes "rows_at d (table_name h) i = []"
  shows "\<exists>e. get_record n h d i = Inl e"
proof (cases n)
  case 0
  then show ?thesis by simp
next
  case (Suc m)
  show ?thesis
  proof (cases "sql_select_fields d (table_name h) (map fst (fields_and_types h))")
    case (Inl e)
    then show ?thesis using Suc by simp
  next
    case (Inr t)
    have "find_row (tbl_rows t) i = None"
      using find_row_rows_at [of d "table_name h" t i] sql_select_fields_Inr [OF Inr] assms by simp
    then show ?thesis using Suc Inr by simp
  qed
qed

lemma get_record_Suc_Inr:
  assumes "get_record (Suc n) h d i = Inr r"
  obtains t resp subs where
    "sql_select_fields d (table_name h) (map fst (fields_and_types h)) = Inr t"
    "find_row (tbl_rows t) i = Some resp"
    "hydrate (\<lambda>table j. case fst (get_table d table) of Inl e \<Rightarrow> Inl e
                        | Inr ht \<Rightarrow> get_record n ht d j) (json_loads (row_manifest resp)) = Inr subs"
    "r = row_record h resp subs"
  using assms by (auto split: sum.splits option.splits)

lemma get_record_dangling:
  assumes "d (table_name h) = Some t" and "find_row (tbl_rows t) i = Some p"
    and "(tc, ids) \<in> set (json_loads (row_manifest p))" and "j \<in> set ids"
    and "rows_at d tc j = []"
  shows "\<exists>e. get_record n h d i = Inl e"
proof (cases "get_record n h d i")
  case (Inl e)
  then show ?thesis by simp
next
  case (Inr r)
  then obtain m where n: "n = Suc m" by (cases n) simp_all
  from Inr n have "get_record (Suc m) h d i = Inr r" by simp
  then obtain t' resp subs where
    sel: "sql_select_fields d (table_name h) (map fst (fields_and_types h)) = Inr t'"
    and fr: "find_row (tbl_rows t') i = Some resp"
    and hy: "hydrate (\<lambda>table j. case fst (get_table d table) of Inl e \<Rightarrow> Inl e
                        | Inr ht \<Rightarrow> get_record m ht d j) (json_loads (row_manifest resp)) = Inr subs"
    and "r = row_record h resp subs"
    by (rule get_record_Suc_Inr)
  from sel assms(1) have "t' = t" using sql_select_fields_Inr by fastforce
  with fr assms(2) have "resp = p" by simp
  with hy assms(3,4) obtain y where
    y: "(case fst (get_table d tc) of Inl e \<Rightarrow> Inl e | Inr ht \<Rightarrow> get_record m ht d j) = Inr y"
    using hydrate_Inr_all by fastforce
  then obtain ht where ht: "fst (get_table d tc) = Inr ht" and g: "get_record m ht d j = Inr y"
    by (auto split: sum.splits)
  have "table_name ht = tc" using get_table_handle(1) [OF ht] .
  with assms(5) have "\<exists>e. get_record m ht d j = Inl e" using get_record_absent by simp
  with g show ?thesis by simp
qed

lemma get_record_after_removal:
  assumes "frame S d d'" and "\<And>name i. (name, i) \<in> S \<Longrightarrow> rows_at d' name i = []"
  shows "get_record n h d i = Inr r
         \<Longrightarrow> get_record n h d' i = Inr r \<or> get_record n h d' i = Inl InvalidRecordError"
proof (induction n arbitrary: h i r)
  case 0
  then show ?case by simp
next
  case (Suc n)
  let ?g = "\<lambda>d table j. case fst (get_table d table) of Inl e \<Rightarrow> Inl e
                         | Inr ht \<Rightarrow> get_record n ht d j"
  from Suc.prems obtain t resp subs where
    sel: "sql_select_fields d (table_name h) (map fst (fields_and_types h)) = Inr t"
    and fr: "find_row (tbl_rows t) i = Some resp"
    and hy: "hydrate (?g d) (json_loads (row_manifest resp)) = Inr subs"
    and r: "r = row_record h resp subs"
    by (rule get_record_Suc_Inr)
  have sc: "same_columns d d'" using assms(1) by (simp add: frame_def)
  from sql_select_fields_same_columns [OF sc sel] obtain t' where
    sel': "sql_select_fields d' (table_name h) (map fst (fields_and_types h)) = Inr t'"
    and t': "d' (table_name h) = Some t'" by blast
  have t: "d (table_name h) = Some t" using sel by (rule sql_select_fields_Inr)
  show ?case
  proof (cases "(table_name h, i) \<in> S")
    case True
    then have "rows_at d' (table_name h) i = []" by (rule assms(2))
    then have "find_row (tbl_rows t') i = None"
      using find_row_rows_at [of d' "table_name h" t' i] t' by simp
    then show ?thesis using sel' by simp
  next
    case False
    then have "rows_at d' (table_name h) i = rows_at d (table_name h) i"
      using assms(1) by (simp add: frame_def)
    then have fr': "find_row (tbl_rows t') i = Some resp"
      using find_row_rows_at [of d' "table_name h" t' i] find_row_rows_at [of d "table_name h" t i]
        t t' fr by simp
    have rel: "?g d' table k = Inr y \<or> ?g d' table k = Inl InvalidRecordError"
      if "?g d table k = Inr y" for table k y
    proof -
      from that obtain ht where ht: "fst (get_table d table) = Inr ht"
        and g: "get_record n ht d k = Inr y"
        by (auto split: sum.splits)
      from get_table_same_columns(2) [OF sc ht] obtain ht' where
        ht': "fst (get_table d' table) = Inr ht'" and "table_name ht' = table_name ht"
        and "fields_and_types ht' = fields_and_types ht" by blast
      then have "get_record n ht' d' k = get_record n ht d' k"
        using get_record_handle_cong by blast
      with Suc.IH [OF g] ht' show ?thesis by simp
    qed
    have "hydrate (?g d') (json_loads (row_manifest resp)) = Inr subs
          \<or> hydrate (?g d') (json_loads (row_manifest resp)) = Inl InvalidRecordError"
      using rel hy by (rule hydrate_rel)
    then show ?thesis using sel' fr' r by auto
  qed
qed

text \<open>
  C5, as the code has it. A \<^verbatim>\<open>delete_record\<close> that returns changes no column list and
  no row but the one of its id in its table, which is gone; so the manifest of a parent row
  still lists the id. Fetching such a parent afterwards raises: \<^verbatim>\<open>get_record\<close> on the
  missing child raises \<^verbatim>\<open>InvalidRecordError\<close> and nothing catches it. Any
  \<^verbatim>\<open>get_record\<close> that returned before the deletion returns the same record after it or
  raises \<^verbatim>\<open>InvalidRecordError\<close>.
\<close>

theorem delete_record_frame_and_dangling_parent:
  assumes "delete_record hc j d = (None, d')"
  shows "(\<forall>name. map_option tbl_cols (d' name) = map_option tbl_cols (d name))
    \<and> (\<forall>name i. (name, i) \<noteq> (table_name hc, j) \<longrightarrow> rows_at d' name i = rows_at d name i)
    \<and> rows_at d' (table_name hc) j = []
    \<and> (\<forall>n h i t p ids. d' (table_name h) = Some t \<longrightarrow> find_row (tbl_rows t) i = Some p
          \<longrightarrow> (table_name hc, ids) \<in> set (json_loads (row_manifest p)) \<longrightarrow> j \<in> set ids
          \<longrightarrow> (\<exists>e. get_record n h d' i = Inl e))
    \<and> (\<forall>n h i r. get_record n h d i = Inr r
          \<longrightarrow> get_record n h d' i = Inr r \<or> get_record n h d' i = Inl InvalidRecordError)"
proof -
  have d': "d' = snd (delete_record hc j d)" and ok: "fst (delete_record hc j d) = None"
    using assms by simp_all
  have fr: "frame {(table_name hc, j)} d d'"
    unfolding d' by (rule delete_record_frame)
  have gone: "rows_at d' (table_name hc) j = []"
    unfolding d' using ok by (rule delete_record_gone)
  have "\<exists>e. get_record n h d' i = Inl e"
    if "d' (table_name h) = Some t" "find_row (tbl_rows t) i = Some p"
       "(table_name hc, ids) \<in> set (json_loads (row_manifest p))" "j \<in> set ids"
    for n h i t p ids
    using that gone by (rule get_record_dangling)
  moreover have "get_record n h d' i = Inr r \<or> get_record n h d' i = Inl InvalidRecordError"
    if "get_record n h d i = Inr r" for n h i r
    using fr _ that by (rule get_record_after_removal) (use gone in simp)
  ultimately show ?thesis
    using fr gone unfolding frame_def same_columns_def by blast
qed

theorem delete_record_frame_and_dangling_parent_witness:
  "delete_record pet_handle 1 owner_db = (None, snd (delete_record pet_handle 1 owner_db))
   \<and> get_record 3 owner_handle owner_db 1 = Inr ann
   \<and> rows_at (snd (delete_record pet_handle 1 owner_db)) ''Owner'' 1 = rows_at owner_db ''Owner'' 1
   \<and> rows_at owner_db ''Owner'' 1 = [Row 1 [(''name'', VText ''Ann'')] [(''Pet'', [1])]]
   \<and> rows_at (snd (delete_record pet_handle 1 owner_db)) (table_name pet_handle) 1 = []
   \<and> get_record 3 owner_handle (snd (delete_record pet_handle 1 owner_db)) 1 = Inl InvalidRecordError"
proof -
  have del: "delete_record pet_handle 1 owner_db = (None, snd (delete_record pet_handle 1 owner_db))"
  proof -
    have "fst (delete_record pet_handle 1 owner_db) = None" by code_simp
    then show ?thesis by (simp add: prod_eq_iff)
  qed
  note t = delete_record_frame_and_dangling_parent [OF del]
  have g: "get_record 3 owner_handle owner_db 1 = Inr ann" by code_simp
  have ne: "(''Owner'', 1::int) \<noteq> (table_name pet_handle, 1)" by code_simp
  have row: "rows_at owner_db ''Owner'' 1 = [Row 1 [(''name'', VText ''Ann'')] [(''Pet'', [1])]]"
    by code_simp
  have after: "get_record 3 owner_handle (snd (delete_record pet_handle 1 owner_db)) 1 \<noteq> Inr ann"
    by code_simp
  from t ne have "rows_at (snd (delete_record pet_handle 1 owner_db)) ''Owner'' 1 = rows_at owner_db ''Owner'' 1"
    by blast
  moreover from t have "rows_at (snd (delete_record pet_handle 1 owner_db)) (table_name pet_handle) 1 = []"
    by blast
  moreover from t g after
  have "get_record 3 owner_handle (snd (delete_record pet_handle 1 owner_db)) 1 = Inl InvalidRecordError"
    by blast
  ultimately show ?thesis using del g row by simp
qed

text \<open>The claim C5 as stated fails: after the pet of Ann is deleted, fetching Ann raises
  \<^verbatim>\<open>InvalidRecordError\<close> instead of returning her without the pet.\<close>

theorem fetch_parent_after_child_delete_counterexample:
  "get_record 3 owner_handle owner_db 1 = Inr ann
   \<and> fst (delete_record pet_handle 1 owner_db) = None
   \<and> get_record 3 owner_handle (snd (delete_record pet_handle 1 owner_db)) 1 = Inl InvalidRecordError"
  by code_simp

section \<open>Building a record\<close>

lemma get_next_id_keeps:
  "fields_and_types (snd (get_next_id h d)) = fields_and_types h
   \<and> subtables (snd (get_next_id h d)) = subtables h"
proof (induction h d rule: get_next_id.induct)
  case (1 h d)
  show ?case
  proof (cases "sql_max_id d (table_name h)")
    case (Inl e)
    then show ?thesis by (simp add: get_next_id.simps [of h d])
  next
    case (Inr mo)
    show ?thesis
    proof (cases mo)
      case None
      then show ?thesis using Inr by (simp add: get_next_id.simps [of h d])
    next
      case (Some m)
      show ?thesis
      proof (cases "m < max_id h")
        case False
        then show ?thesis using Inr Some by (simp add: get_next_id.simps [of h d])
      next
        case True
        show ?thesis
        proof (cases "sql_select_id d (table_name h) (max_id h)")
          case (Inl e)
          then show ?thesis using Inr Some True by (simp add: get_next_id.simps [of h d])
        next
          case sel: (Inr ro)
          show ?thesis
          proof (cases ro)
            case None
            then show ?thesis using Inr Some True sel by (simp add: get_next_id.simps [of h d])
          next
            case found: (Some res)
            have "get_next_id h d = get_next_id (h\<lparr>max_id := max_id h + 1\<rparr>) d"
              using Inr Some True sel found by (simp add: get_next_id.simps [of h d])
            then show ?thesis
              using "1.IH" [OF Inr Some True sel found] by simp
          qed
        qed
      qed
    qed
  qed
qed

text \<open>
  C8, as the code has it. A call of \<^verbatim>\<open>create_record\<close> with the children omitted takes
  the default dict of the function as the children, as it is: no group is filled in for a
  declared subtable, and the record returned holds that dict. Whatever the dict holds, the
  call raises \<^verbatim>\<open>InvalidRecordError\<close> (once an id is allocated) when the number of its
  groups is not the number of declared subtables; for fields that do not use the key
  \<^verbatim>\<open>"id"\<close>, a call that returns gives a valid record with the fields, the default dict
  as its subrecords, and an id above \<^verbatim>\<open>_max_id\<close> that no row of the table has; and the
  call returns whenever the id is allocated and the record is valid. While the default
  dict is empty, as it is until a caller assigns into the subrecords of a record that such
  a call returned, the call raises for every table that declares a subtable. The method
  issues \<^verbatim>\<open>SELECT\<close> statements only, so the model gives it no store to return.
\<close>

theorem create_record_children_omitted:
  assumes "map_of fs ''id'' = None"
  shows "(\<forall>r h'. create_record_call h fs None dflt d = (Inr r, h')
          \<longrightarrow> rec_subrecords r = dflt
              \<and> length dflt = length (subtables h)
              \<and> rec_id r \<notin> set (row_ids d (table_name h))
              \<and> max_id h < rec_id r \<and> max_id h' = rec_id r
              \<and> r = Record (rec_id r) (filter (\<lambda>(k, v). \<not> reserved k) fs) dflt
              \<and> is_valid_record h' r d = Inr Valid)
    \<and> (length dflt \<noteq> length (subtables h)
          \<longrightarrow> (\<exists>e. fst (create_record_call h fs None dflt d) = Inl e))
    \<and> (\<forall>i h'. length dflt \<noteq> length (subtables h) \<longrightarrow> get_next_id h d = (Inr i, h')
          \<longrightarrow> create_record_call h fs None dflt d = (Inl InvalidRecordError, h'))
    \<and> (\<forall>i h'. get_next_id h d = (Inr i, h')
          \<longrightarrow> is_valid_record h' (mk_record i fs dflt) d = Inr Valid
          \<longrightarrow> create_record_call h fs None dflt d = (Inr (mk_record i fs dflt), h'))
    \<and> (subtables h \<noteq> [] \<longrightarrow> (\<exists>e. fst (create_record_call h fs None [] d) = Inl e))
    \<and> (\<forall>i h'. subtables h \<noteq> [] \<longrightarrow> get_next_id h d = (Inr i, h')
          \<longrightarrow> create_record_call h fs None [] d = (Inl InvalidRecordError, h'))"
proof -
  have main: "(\<forall>r h'. create_record h fs subs d = (Inr r, h')
          \<longrightarrow> rec_subrecords r = subs
              \<and> length subs = length (subtables h)
              \<and> rec_id r \<notin> set (row_ids d (table_name h))
              \<and> max_id h < rec_id r \<and> max_id h' = rec_id r
              \<and> r = Record (rec_id r) (filter (\<lambda>(k, v). \<not> reserved k) fs) subs
              \<and> is_valid_record h' r d = Inr Valid)
    \<and> (length subs \<noteq> length (subtables h)
          \<longrightarrow> (\<exists>e. fst (create_record h fs subs d) = Inl e))
    \<and> (\<forall>i h'. length subs \<noteq> length (subtables h) \<longrightarrow> get_next_id h d = (Inr i, h')
          \<longrightarrow> create_record h fs subs d = (Inl InvalidRecordError, h'))
    \<and> (\<forall>i h'. get_next_id h d = (Inr i, h')
          \<longrightarrow> is_valid_record h' (mk_record i fs subs) d = Inr Valid
          \<longrightarrow> create_record h fs subs d = (Inr (mk_record i fs subs), h'))" for subs
  proof -
    obtain res h1 where g: "get_next_id h d = (res, h1)" by (cases "get_next_id h d")
    note st = get_next_id_step [OF g]
    have keep: "subtables h1 = subtables h"
      using get_next_id_keeps [of h d] g by simp
    show ?thesis
    proof (cases res)
      case (Inl e)
      then show ?thesis using g by (simp add: create_record_def)
    next
      case (Inr i)
      let ?r = "mk_record i fs subs"
      have cr: "create_record h fs subs d =
                  (case is_valid_record h1 ?r d of
                     Inl e \<Rightarrow> (Inl e, h1)
                   | Inr (Invalid w) \<Rightarrow> (Inl InvalidRecordError, h1)
                   | Inr Valid \<Rightarrow> (Inr ?r, h1))"
        using g Inr assms by (simp add: create_record_def Let_def)
      have fresh: "i \<notin> set (row_ids d (table_name h))" "max_id h < i" "max_id h1 = i"
        using st Inr by auto
      have inv: "\<exists>w. is_valid_record h1 ?r d = Inr (Invalid w)"
        if "length subs \<noteq> length (subtables h)"
        using that keep by (auto simp: mk_record_def)
      show ?thesis
      proof (cases "is_valid_record h1 ?r d")
        case (Inl e)
        then show ?thesis using cr g Inr inv by auto
      next
        case v: (Inr verdict)
        show ?thesis
        proof (cases verdict)
          case (Invalid w)
          then show ?thesis using cr g Inr v by auto
        next
          case Valid
          then have "length subs = length (subtables h)" using inv v by auto
          moreover have "create_record h fs subs d = (Inr ?r, h1)" using cr v Valid by simp
          moreover have "rec_id ?r = i" by (simp add: mk_record_def)
          ultimately show ?thesis using g Inr v Valid fresh by (auto simp: mk_record_def)
        qed
      qed
    qed
  qed
  have call: "create_record_call h fs None subs d = create_record h fs subs d" for subs
    by (simp add: create_record_call_def)
  have e: "length ([] :: (string \<times> pyrecord list) list) \<noteq> length (subtables h)"
    if "subtables h \<noteq> []"
    using that by simp
  show ?thesis
    unfolding call
    using main [of dflt] main [of "[]"] e by blast
qed

theorem create_record_children_omitted_witness:
  "create_record_call pet_handle [(''name'', VText ''Rex''), (''age'', VInt 3)] None [] pet_db
     = (Inr rex, pet_handle\<lparr>max_id := 1\<rparr>)
   \<and> rec_id rex \<notin> set (row_ids pet_db (table_name pet_handle))
   \<and> is_valid_record (pet_handle\<lparr>max_id := 1\<rparr>) rex pet_db = Inr Valid
   \<and> fst (create_record_call owner_handle [(''name'', VText ''Bob'')] None [] owner_db)
       = Inl InvalidRecordError
   \<and> create_record_call owner_handle [(''name'', VText ''Bob'')] None [(''Pet'', [])] owner_db
       = (Inr (Record 2 [(''name'', VText ''Bob'')] [(''Pet'', [])]), owner_handle\<lparr>max_id := 2\<rparr>)"
proof -
  have a: "map_of [(''name'', VText ''Rex''), (''age'', VInt 3)] ''id'' = None" by simp
  have b: "map_of [(''name'', VText ''Bob'')] ''id'' = None" by simp
  have c: "create_record_call pet_handle [(''name'', VText ''Rex''), (''age'', VInt 3)] None [] pet_db
             = (Inr rex, pet_handle\<lparr>max_id := 1\<rparr>)"
    by code_simp
  have s: "subtables owner_handle \<noteq> []" by code_simp
  have g: "get_next_id owner_handle owner_db = (Inr 2, owner_handle\<lparr>max_id := 2\<rparr>)"
    by code_simp
  have v: "is_valid_record (owner_handle\<lparr>max_id := 2\<rparr>)
             (mk_record 2 [(''name'', VText ''Bob'')] [(''Pet'', [])]) owner_db = Inr Valid"
    by code_simp
  have m: "mk_record 2 [(''name'', VText ''Bob'')] [(''Pet'', [])]
             = Record 2 [(''name'', VText ''Bob'')] [(''Pet'', [])]"
    by code_simp
  note t1 = create_record_children_omitted [OF a, of pet_handle "[]" pet_db]
  note t2 = create_record_children_omitted [OF b, of owner_handle "[]" owner_db]
  note t3 = create_record_children_omitted [OF b, of owner_handle "[(''Pet'', [])]" owner_db]
  from t1 c have "rec_id rex \<notin> set (row_ids pet_db (table_name pet_handle))
      \<and> is_valid_record (pet_handle\<lparr>max_id := 1\<rparr>) rex pet_db = Inr Valid"
    by blast
  moreover from t2 s g
  have "create_record_call owner_handle [(''name'', VText ''Bob'')] None [] owner_db
          = (Inl InvalidRecordError, owner_handle\<lparr>max_id := 2\<rparr>)"
    by blast
  moreover from t3 g v
  have "create_record_call owner_handle [(''name'', VText ''Bob'')] None [(''Pet'', [])] owner_db
          = (Inr (mk_record 2 [(''name'', VText ''Bob'')] [(''Pet'', [])]), owner_handle\<lparr>max_id := 2\<rparr>)"
    by blast
  ultimately show ?thesis using c m by simp
qed

text \<open>The claim C8 as stated fails: \<^verbatim>\<open>Owner\<close> declares the subtable \<^verbatim>\<open>Pet\<close>, and
  \<^verbatim>\<open>create_record\<close> with the children omitted, the default dict being empty, raises
  \<^verbatim>\<open>InvalidRecordError\<close>; it returns when the caller passes the empty group.\<close>

theorem create_record_default_children_counterexample:
  "subtables owner_handle = [''Pet'']
   \<and> fst (get_table owner_db ''Owner'') = Inr owner_handle
   \<and> fst (create_record_call owner_handle [(''name'', VText ''Bob'')] None [] owner_db)
       = Inl InvalidRecordError
   \<and> fst (create_record_call owner_handle [(''name'', VText ''Bob'')] (Some [(''Pet'', [])]) []
            owner_db)
       = Inr (Record 2 [(''name'', VText ''Bob'')] [(''Pet'', [])])"
  by code_simp

section \<open>Searching\<close>











text \<open>The tokenizer on quoted phrases: a phrase followed by a word is one keyword, and a
  query that ends with a phrase raises \<^verbatim>\<open>IndexError\<close> (\<^verbatim>\<open>s[0]\<close> on what is left).\<close>

lemma get_keywords_phrase:
  "get_keywords 3 (CHR 0x22 # ''red dog'' @ CHR 0x22 # '' cat'') = Inr [''red dog'', ''cat'']"
  "get_keywords 3 (CHR 0x22 # ''red dog'' @ [CHR 0x22]) = Inl IndexError"
  "get_keywords 3 [] = Inl IndexError"
  by code_simp+

text \<open>A row that holds a REAL in the searched field: the search is not read.\<close>

lemma search_records_real_unread:
  "search_records 2
     \<lparr>table_name = ''W'', fields_and_types = [(''w'', ''REAL'')], subtables = [], max_id = 0\<rparr>
     ''w'' ''1'' [] False
     ((\<lambda>n. None)(''W'' \<mapsto> Tbl [(''id'', ''INTEGER''), (''w'', ''REAL''), (''subrecords'', ''TEXT'')]
                               [Row 0 [] [], Row 1 [(''w'', VReal (Float64 0))] []]))
     = Inl Unmodelled"
  by code_simp





end
